theory Spec2Isabelle
  imports Complex_Main "HOL-Library.Word"
begin

section \<open>Data model (types.ts)\<close>

text \<open>
  A JavaScript string is a sequence of UTF-16 code units. \<open>utf16\<close> writes the
  string of an ASCII literal: one code unit per character, the character's code.
\<close>

type_synonym jsstring = "16 word list"

definition utf16 :: "string \<Rightarrow> jsstring" where
  "utf16 s = map (\<lambda>c. of_nat (of_char c)) s"

text \<open>
  The interfaces \<open>QuestionOption\<close>, \<open>QuestionAnswer\<close>, \<open>QuestionItem\<close> and
  \<open>UserAnswer\<close>. The fields \<open>label\<close> and \<open>text\<close> occur in two interfaces and are
  prefixed here; \<open>id\<close> is written \<open>qid\<close>. A value of type \<open>T | null\<close> is a
  \<open>T option\<close>; \<open>number\<close> is modelled by the reals (rounding of floating-point sums
  is not modelled).
\<close>

record QuestionOption =
  opt_label :: jsstring
  opt_text :: jsstring

record QuestionAnswer =
  ans_label :: jsstring
  ans_text :: jsstring

record QuestionItem =
  qid :: nat
  question :: jsstring
  score :: "real option"
  options :: "QuestionOption list"
  answer :: QuestionAnswer

record UserAnswer =
  choice :: "jsstring option"
  correct :: "bool option"

datatype ViewMode = ModeAll | ModeWrong

text \<open>
  The only text ever stored in \<open>statusMessage\<close> is the hint of \<open>handleSubmit\<close>
  (``select an option first'').
\<close>

datatype hint = SelectOptionFirst

section \<open>JavaScript arrays and strings\<close>

text \<open>
  An array of \<open>UserAnswer\<close> is a list of optional records: \<open>None\<close> is an entry that
  reads as \<open>undefined\<close> or \<open>null\<close> (a hole left by an assignment past the end, a
  \<open>null\<close> of the stored JSON). The source reads every entry through \<open>?.\<close> or a
  truthiness test, which treat both alike.
\<close>

type_synonym answers = "UserAnswer option list"

text \<open>\<open>xs[i]\<close>: \<open>undefined\<close> out of range.\<close>

definition item_at :: "'a list \<Rightarrow> nat \<Rightarrow> 'a option" where
  "item_at xs i = (if i < length xs then Some (xs ! i) else None)"

definition entry :: "answers \<Rightarrow> nat \<Rightarrow> UserAnswer option" where
  "entry xs i = (if i < length xs then xs ! i else None)"

text \<open>\<open>next[i] = v\<close>: in range the entry is replaced, past the end the array grows.\<close>

definition assign :: "answers \<Rightarrow> nat \<Rightarrow> UserAnswer \<Rightarrow> answers" where
  "assign xs i v =
     (if i < length xs then xs[i := Some v]
      else xs @ replicate (i - length xs) None @ [Some v])"

text \<open>\<open>a?.correct ?? null\<close> and \<open>a?.choice ?? null\<close>.\<close>

definition correct_of :: "UserAnswer option \<Rightarrow> bool option" where
  "correct_of a = (case a of None \<Rightarrow> None | Some r \<Rightarrow> correct r)"

definition choice_of :: "UserAnswer option \<Rightarrow> jsstring option" where
  "choice_of a = (case a of None \<Rightarrow> None | Some r \<Rightarrow> choice r)"

text \<open>
  \<open>xs.reduce(f, init)\<close> with the three-argument callback
  \<open>(accumulator, element, index)\<close>.
\<close>

fun reduce_from :: "('b \<Rightarrow> 'a \<Rightarrow> nat \<Rightarrow> 'b) \<Rightarrow> nat \<Rightarrow> 'b \<Rightarrow> 'a list \<Rightarrow> 'b" where
  "reduce_from f index acc [] = acc"
| "reduce_from f index acc (x # xs) = reduce_from f (Suc index) (f acc x index) xs"

definition reduce :: "('b \<Rightarrow> 'a \<Rightarrow> nat \<Rightarrow> 'b) \<Rightarrow> 'b \<Rightarrow> 'a list \<Rightarrow> 'b" where
  "reduce f init xs = reduce_from f 0 init xs"

text \<open>\<open>xs.map((_, index) => index)\<close>.\<close>

definition indices_of :: "'a list \<Rightarrow> nat list" where
  "indices_of xs = [0..<length xs]"

text \<open>\<open>xs.indexOf(x)\<close>: the first position of \<open>x\<close>, or \<open>-1\<close>.\<close>

fun indexOf :: "'a list \<Rightarrow> 'a \<Rightarrow> int" where
  "indexOf [] x = - 1"
| "indexOf (y # ys) x =
     (if y = x then 0
      else (let r = indexOf ys x in if r = - 1 then - 1 else r + 1))"

text \<open>
  \<open>s.trim()\<close> removes the white space and the line terminators at both ends of
  \<open>s\<close>. These are the code units U+0009 to U+000D, U+0020, U+00A0, U+1680, U+2000 to
  U+200A, U+2028, U+2029, U+202F, U+205F, U+3000 and U+FEFF.
\<close>

definition is_space :: "16 word \<Rightarrow> bool" where
  "is_space c =
     ((0x0009 \<le> c \<and> c \<le> 0x000D) \<or> c = 0x0020 \<or> c = 0x00A0 \<or> c = 0x1680
      \<or> (0x2000 \<le> c \<and> c \<le> 0x200A) \<or> c = 0x2028 \<or> c = 0x2029 \<or> c = 0x202F
      \<or> c = 0x205F \<or> c = 0x3000 \<or> c = 0xFEFF)"

definition trim :: "jsstring \<Rightarrow> jsstring" where
  "trim s = rev (dropWhile is_space (rev (dropWhile is_space s)))"

text \<open>
  \<open>s.toLowerCase()\<close> is the lower-case mapping of Unicode, a table that is no part of
  the program. The functions that call it take it as their parameter \<open>toLowerCase\<close>,
  and what is proved of them holds for every function in its place. On a string of
  ASCII characters it maps \<open>A\<close> to \<open>Z\<close> to \<open>a\<close> to \<open>z\<close> and keeps everything else:
  this is \<open>asciiLower\<close>, which stands for it in the examples, whose strings are ASCII.
\<close>

definition asciiLower :: "jsstring \<Rightarrow> jsstring" where
  "asciiLower s = map (\<lambda>c. if 0x41 \<le> c \<and> c \<le> 0x5A then c + 0x20 else c) s"

text \<open>\<open>parts.join(sep)\<close>.\<close>

fun join :: "jsstring \<Rightarrow> jsstring list \<Rightarrow> jsstring" where
  "join sep [] = []"
| "join sep [x] = x"
| "join sep (x # y # ys) = x @ sep @ join sep (y # ys)"

text \<open>\<open>s.startsWith(q)\<close> and \<open>s.includes(q)\<close>: \<open>q\<close> occurs in \<open>s\<close> as a substring.\<close>

fun starts_with :: "jsstring \<Rightarrow> jsstring \<Rightarrow> bool" where
  "starts_with s [] = True"
| "starts_with [] (c # q) = False"
| "starts_with (a # s) (c # q) = (a = c \<and> starts_with s q)"

fun str_includes :: "jsstring \<Rightarrow> jsstring \<Rightarrow> bool" where
  "str_includes [] q = (q = [])"
| "str_includes (a # s) q = (starts_with (a # s) q \<or> str_includes s q)"

text \<open>Truthiness of a \<open>string | null\<close>: \<open>null\<close> and the empty string are falsy.\<close>

definition truthy :: "jsstring option \<Rightarrow> bool" where
  "truthy c = (case c of None \<Rightarrow> False | Some s \<Rightarrow> s \<noteq> [])"

section \<open>Stored answers\<close>

text \<open>\<open>getInitialAnswers\<close>.\<close>

definition getInitialAnswers :: "nat \<Rightarrow> answers" where
  "getInitialAnswers sz = replicate sz (Some \<lparr>choice = None, correct = None\<rparr>)"

text \<open>
  What \<open>loadAnswersFromStorage\<close> finds: nothing usable (\<open>getItem\<close> gave \<open>null\<close> or
  the empty string), a text on which \<open>JSON.parse\<close> throws, or a parsed array.
\<close>

datatype stored = Absent | Unparsable | Parsed answers

fun loadAnswersFromStorage :: "stored \<Rightarrow> nat \<Rightarrow> answers" where
  "loadAnswersFromStorage (Parsed parsed) sz =
     (if length parsed = sz then parsed
      else if length parsed < sz then parsed @ getInitialAnswers (sz - length parsed)
      else take sz parsed)"
| "loadAnswersFromStorage Unparsable sz = getInitialAnswers sz"
| "loadAnswersFromStorage Absent sz = getInitialAnswers sz"

section \<open>The component \<open>App\<close>\<close>

text \<open>
  The state of the component (its \<open>useState\<close> cells; \<open>loading\<close> and \<open>error\<close> only
  select what is rendered and are left out). Each handler is a function from the state
  of the render it was created in to the state after its updates.
\<close>

record AppState =
  questions :: "QuestionItem list"
  userAnswers :: answers
  currentIndex :: nat
  viewMode :: ViewMode
  statusMessage :: "hint option"
  searchQuery :: jsstring

definition initialState :: AppState where
  "initialState =
     \<lparr>questions = [], userAnswers = [], currentIndex = 0, viewMode = ModeAll,
      statusMessage = None, searchQuery = []\<rparr>"

text \<open>
  \<open>fetchQuestions\<close>, once the catalog has arrived: \<open>setQuestions(data)\<close> and
  \<open>setUserAnswers(loadAnswersFromStorage(data.length))\<close>.
\<close>

definition fetchQuestions :: "QuestionItem list \<Rightarrow> stored \<Rightarrow> AppState \<Rightarrow> AppState" where
  "fetchQuestions data saved st =
     st\<lparr>questions := data, userAnswers := loadAnswersFromStorage saved (length data)\<rparr>"

definition totalQuestions :: "AppState \<Rightarrow> nat" where
  "totalQuestions st = length (questions st)"

definition currentQuestion :: "AppState \<Rightarrow> QuestionItem option" where
  "currentQuestion st = item_at (questions st) (currentIndex st)"

definition currentAnswer :: "AppState \<Rightarrow> UserAnswer option" where
  "currentAnswer st = entry (userAnswers st) (currentIndex st)"

subsection \<open>Summary\<close>

record Summary =
  answeredCount :: nat
  correctCount :: nat
  wrongCount :: nat
  totalScore :: real
  fullScore :: real

text \<open>\<open>questions[index]?.score ?? 0\<close> and \<open>question.score ?? 0\<close>.\<close>

definition score_or_0 :: "QuestionItem \<Rightarrow> real" where
  "score_or_0 q = (case score q of None \<Rightarrow> 0 | Some s \<Rightarrow> s)"

definition score_at :: "QuestionItem list \<Rightarrow> nat \<Rightarrow> real" where
  "score_at qs index = (case item_at qs index of None \<Rightarrow> 0 | Some q \<Rightarrow> score_or_0 q)"

definition summary :: "AppState \<Rightarrow> Summary" where
  "summary st =
     \<lparr>answeredCount =
        length (filter (\<lambda>item. item \<noteq> None \<and> correct_of item \<noteq> None) (userAnswers st)),
      correctCount = length (filter (\<lambda>item. correct_of item = Some True) (userAnswers st)),
      wrongCount = length (filter (\<lambda>item. correct_of item = Some False) (userAnswers st)),
      totalScore =
        reduce (\<lambda>acc answer index.
                  if correct_of answer = Some True then acc + score_at (questions st) index
                  else acc)
          0 (userAnswers st),
      fullScore = reduce (\<lambda>acc q index. acc + score_or_0 q) 0 (questions st)\<rparr>"

subsection \<open>View filter\<close>

definition wrongQuestionIndices :: "AppState \<Rightarrow> nat list" where
  "wrongQuestionIndices st =
     reduce (\<lambda>list answer index.
               if correct_of answer = Some False then list @ [index] else list)
       [] (userAnswers st)"

definition searchResultIndices :: "(jsstring \<Rightarrow> jsstring) \<Rightarrow> AppState \<Rightarrow> nat list" where
  "searchResultIndices toLowerCase st =
     (if trim (searchQuery st) = [] then indices_of (questions st)
      else
        (let query = toLowerCase (searchQuery st) in
         reduce (\<lambda>list q index.
                   (let questionText = toLowerCase (question q);
                        optionsText =
                          join (utf16 '' '') (map (\<lambda>opt. toLowerCase (opt_text opt)) (options q))
                    in if str_includes questionText query \<or> str_includes optionsText query
                       then list @ [index] else list))
           [] (questions st)))"

definition visibleIndices :: "(jsstring \<Rightarrow> jsstring) \<Rightarrow> AppState \<Rightarrow> nat list" where
  "visibleIndices toLowerCase st =
     (let indices =
            (if viewMode st = ModeWrong then wrongQuestionIndices st
             else if trim (searchQuery st) \<noteq> [] then searchResultIndices toLowerCase st
             else indices_of (questions st))
      in if trim (searchQuery st) \<noteq> []
         then filter (\<lambda>idx. idx \<in> set (searchResultIndices toLowerCase st)) indices
         else indices)"

text \<open>
  The effect on \<open>[viewMode, wrongQuestionIndices, currentIndex]\<close>: in the wrong-only
  view the cursor is moved to the first wrong question when it is on none.
\<close>

definition autoCorrect :: "AppState \<Rightarrow> AppState" where
  "autoCorrect st =
     (if viewMode st \<noteq> ModeWrong then st
      else if length (wrongQuestionIndices st) = 0 then st
      else if currentIndex st \<notin> set (wrongQuestionIndices st)
           then st\<lparr>currentIndex := wrongQuestionIndices st ! 0\<rparr>
      else st)"

subsection \<open>Navigation\<close>

definition currentVisiblePosition :: "(jsstring \<Rightarrow> jsstring) \<Rightarrow> AppState \<Rightarrow> int" where
  "currentVisiblePosition toLowerCase st
     = indexOf (visibleIndices toLowerCase st) (currentIndex st)"

definition previousIndex :: "(jsstring \<Rightarrow> jsstring) \<Rightarrow> AppState \<Rightarrow> nat option" where
  "previousIndex toLowerCase st =
     (if currentVisiblePosition toLowerCase st > 0
      then Some (visibleIndices toLowerCase st ! nat (currentVisiblePosition toLowerCase st - 1))
      else None)"

definition nextIndex :: "(jsstring \<Rightarrow> jsstring) \<Rightarrow> AppState \<Rightarrow> nat option" where
  "nextIndex toLowerCase st =
     (if currentVisiblePosition toLowerCase st \<noteq> - 1
         \<and> currentVisiblePosition toLowerCase st < int (length (visibleIndices toLowerCase st)) - 1
      then Some (visibleIndices toLowerCase st ! nat (currentVisiblePosition toLowerCase st + 1))
      else None)"

definition isSubmitted :: "AppState \<Rightarrow> bool" where
  "isSubmitted st = (currentAnswer st \<noteq> None \<and> correct_of (currentAnswer st) \<noteq> None)"

definition selectedChoice :: "AppState \<Rightarrow> jsstring option" where
  "selectedChoice st = choice_of (currentAnswer st)"

subsection \<open>Handlers\<close>

definition handleSelect :: "jsstring \<Rightarrow> AppState \<Rightarrow> AppState" where
  "handleSelect c st =
     st\<lparr>userAnswers :=
          assign (userAnswers st) (currentIndex st)
            \<lparr>choice = Some c, correct = correct_of (entry (userAnswers st) (currentIndex st))\<rparr>,
        statusMessage := None\<rparr>"

definition handleSubmit :: "AppState \<Rightarrow> AppState" where
  "handleSubmit st =
     (case currentQuestion st of
        None \<Rightarrow> st
      | Some q \<Rightarrow>
          if \<not> truthy (selectedChoice st) then st\<lparr>statusMessage := Some SelectOptionFirst\<rparr>
          else st\<lparr>userAnswers :=
                    assign (userAnswers st) (currentIndex st)
                      \<lparr>choice = selectedChoice st,
                       correct = Some (selectedChoice st = Some (ans_label (answer q)))\<rparr>\<rparr>)"

definition handleResetQuestion :: "AppState \<Rightarrow> AppState" where
  "handleResetQuestion st =
     st\<lparr>userAnswers := assign (userAnswers st) (currentIndex st) \<lparr>choice = None, correct = None\<rparr>,
        statusMessage := None\<rparr>"

definition handlePrevious :: "(jsstring \<Rightarrow> jsstring) \<Rightarrow> AppState \<Rightarrow> AppState" where
  "handlePrevious toLowerCase st =
     (case previousIndex toLowerCase st of
        None \<Rightarrow> st
      | Some p \<Rightarrow> st\<lparr>currentIndex := p, statusMessage := None\<rparr>)"

definition handleNext :: "(jsstring \<Rightarrow> jsstring) \<Rightarrow> AppState \<Rightarrow> AppState" where
  "handleNext toLowerCase st =
     (case nextIndex toLowerCase st of
        None \<Rightarrow> st
      | Some n \<Rightarrow> st\<lparr>currentIndex := n, statusMessage := None\<rparr>)"

definition handleJump :: "nat \<Rightarrow> AppState \<Rightarrow> AppState" where
  "handleJump index st = st\<lparr>currentIndex := index, statusMessage := None\<rparr>"

definition handleToggleView :: "AppState \<Rightarrow> AppState" where
  "handleToggleView st =
     (if viewMode st = ModeAll then st\<lparr>viewMode := ModeWrong\<rparr> else st\<lparr>viewMode := ModeAll\<rparr>)"

definition handleClearSearch :: "AppState \<Rightarrow> AppState" where
  "handleClearSearch st = st\<lparr>searchQuery := [], statusMessage := None\<rparr>"

text \<open>
  \<open>handleClearRecords\<close>: \<open>confirmed\<close> is the answer to the confirmation dialog,
  \<open>removed\<close> tells whether \<open>localStorage.removeItem\<close> returned without throwing.
\<close>

definition handleClearRecords :: "bool \<Rightarrow> bool \<Rightarrow> AppState \<Rightarrow> AppState" where
  "handleClearRecords confirmed removed st =
     (if confirmed \<and> removed
      then st\<lparr>userAnswers := getInitialAnswers (length (questions st)), statusMessage := None\<rparr>
      else st)"

text \<open>The search box: \<open>onChange={(e) => setSearchQuery(e.target.value)}\<close>.\<close>

definition setSearchQuery :: "jsstring \<Rightarrow> AppState \<Rightarrow> AppState" where
  "setSearchQuery v st = st\<lparr>searchQuery := v\<rparr>"

text \<open>
  The button of the view mode: \<open>onClick={handleToggleView}\<close> with
  \<open>disabled={viewMode === 'all' && summary.wrongCount === 0}\<close>; a disabled button
  dispatches no click.
\<close>

definition toggleDisabled :: "AppState \<Rightarrow> bool" where
  "toggleDisabled st = (viewMode st = ModeAll \<and> wrongCount (summary st) = 0)"

definition clickToggleView :: "AppState \<Rightarrow> AppState" where
  "clickToggleView st = (if toggleDisabled st then st else handleToggleView st)"

subsection \<open>Settled states\<close>

text \<open>
  An event runs its handler; the render that follows runs the effect \<open>autoCorrect\<close>,
  after which no effect changes the state any more.
\<close>

datatype event =
    Loaded "QuestionItem list" stored
  | Select jsstring
  | Submit
  | ResetQuestion
  | Previous
  | Next
  | Jump nat
  | ToggleView
  | SearchInput jsstring
  | ClearSearch
  | ClearRecords bool bool

fun handle :: "(jsstring \<Rightarrow> jsstring) \<Rightarrow> event \<Rightarrow> AppState \<Rightarrow> AppState" where
  "handle toLowerCase (Loaded data saved) st = fetchQuestions data saved st"
| "handle toLowerCase (Select c) st = handleSelect c st"
| "handle toLowerCase Submit st = handleSubmit st"
| "handle toLowerCase ResetQuestion st = handleResetQuestion st"
| "handle toLowerCase Previous st = handlePrevious toLowerCase st"
| "handle toLowerCase Next st = handleNext toLowerCase st"
| "handle toLowerCase (Jump index) st = handleJump index st"
| "handle toLowerCase ToggleView st = handleToggleView st"
| "handle toLowerCase (SearchInput v) st = setSearchQuery v st"
| "handle toLowerCase ClearSearch st = handleClearSearch st"
| "handle toLowerCase (ClearRecords confirmed removed) st
     = handleClearRecords confirmed removed st"

definition step :: "(jsstring \<Rightarrow> jsstring) \<Rightarrow> event \<Rightarrow> AppState \<Rightarrow> AppState" where
  "step toLowerCase e st = autoCorrect (handle toLowerCase e st)"

inductive settled :: "(jsstring \<Rightarrow> jsstring) \<Rightarrow> AppState \<Rightarrow> bool"
  for toLowerCase :: "jsstring \<Rightarrow> jsstring" where
  settled_initial: "settled toLowerCase initialState"
| settled_step: "settled toLowerCase st \<Longrightarrow> settled toLowerCase (step toLowerCase e st)"

subsection \<open>Example catalogs and states\<close>

text \<open>
  A catalog of three questions with the scores 1, 2 and none.
\<close>

definition exampleCatalog :: "QuestionItem list" where
  "exampleCatalog =
     [\<lparr>qid = 1, question = utf16 ''Alpha'', score = Some 1,
       options = [\<lparr>opt_label = utf16 ''A'', opt_text = utf16 ''red''\<rparr>,
                  \<lparr>opt_label = utf16 ''B'', opt_text = utf16 ''green''\<rparr>],
       answer = \<lparr>ans_label = utf16 ''A'', ans_text = utf16 ''red''\<rparr>\<rparr>,
      \<lparr>qid = 2, question = utf16 ''Beta'', score = Some 2,
       options = [\<lparr>opt_label = utf16 ''B'', opt_text = utf16 ''blue''\<rparr>,
                  \<lparr>opt_label = utf16 ''C'', opt_text = utf16 ''cyan''\<rparr>],
       answer = \<lparr>ans_label = utf16 ''C'', ans_text = utf16 ''cyan''\<rparr>\<rparr>,
      \<lparr>qid = 3, question = utf16 ''Gamma'', score = None,
       options = [\<lparr>opt_label = utf16 ''A'', opt_text = utf16 ''Zebra''\<rparr>,
                  \<lparr>opt_label = utf16 ''B'', opt_text = utf16 ''yak''\<rparr>],
       answer = \<lparr>ans_label = utf16 ''B'', ans_text = utf16 ''yak''\<rparr>\<rparr>]"

text \<open>The example catalog loaded with nothing stored.\<close>

definition loadedState :: AppState where
  "loadedState = step asciiLower (Loaded exampleCatalog Absent) initialState"

text \<open>Option \<open>A\<close> of the first question selected, and then submitted.\<close>

definition selectedState :: AppState where
  "selectedState = step asciiLower (Select (utf16 ''A'')) loadedState"

definition gradedState :: AppState where
  "gradedState = step asciiLower Submit selectedState"

text \<open>
  The second question answered \<open>B\<close> (wrong), and then the view switched to the
  wrong questions.
\<close>

definition wrongAnswerState :: AppState where
  "wrongAnswerState =
     step asciiLower Submit
       (step asciiLower (Select (utf16 ''B'')) (step asciiLower (Jump 1) loadedState))"

definition wrongViewState :: AppState where
  "wrongViewState = step asciiLower ToggleView wrongAnswerState"

text \<open>The search box holding \<open>alpha\<close> followed by a space, and holding \<open>ZEB\<close>.\<close>

definition trailingSpaceSearch :: AppState where
  "trailingSpaceSearch = step asciiLower (SearchInput (utf16 ''alpha '')) loadedState"

definition zebSearch :: AppState where
  "zebSearch = step asciiLower (SearchInput (utf16 ''ZEB'')) loadedState"

section \<open>Facts about the array and string operations\<close>

lemma starts_with_iff: "starts_with s q \<longleftrightarrow> (\<exists>ss. s = q @ ss)"
  by (induction s q rule: starts_with.induct) auto

lemma str_includes_iff: "str_includes s q \<longleftrightarrow> (\<exists>ps ss. s = ps @ q @ ss)"
proof (induction s)
  case Nil
  then show ?case by auto
next
  case (Cons a s)
  have "(\<exists>ps ss. a # s = ps @ q @ ss) \<longleftrightarrow> (\<exists>ss. a # s = q @ ss) \<or> (\<exists>ps ss. s = ps @ q @ ss)"
    (is "?L \<longleftrightarrow> ?A \<or> ?B")
  proof
    assume ?L
    then obtain ps ss where e: "a # s = ps @ q @ ss" by blast
    show "?A \<or> ?B"
    proof (cases ps)
      case Nil
      with e show ?thesis by auto
    next
      case (Cons p ps')
      with e have "s = ps' @ q @ ss" by simp
      then show ?thesis by blast
    qed
  next
    assume "?A \<or> ?B"
    then show ?L
    proof
      assume ?A
      then obtain ss where "a # s = [] @ q @ ss" by auto
      then show ?L by blast
    next
      assume ?B
      then obtain ps ss where "s = ps @ q @ ss" by blast
      then have "a # s = (a # ps) @ q @ ss" by simp
      then show ?L by blast
    qed
  qed
  with Cons show ?case by (simp add: starts_with_iff)
qed

text \<open>A \<open>reduce\<close> that pushes the index of every element passing a test.\<close>

lemma reduce_from_push:
  "reduce_from (\<lambda>list x index. if P x then list @ [index] else list) k acc xs
     = acc @ map (\<lambda>i. k + i) (filter (\<lambda>i. P (xs ! i)) [0..<length xs])"
proof (induction xs arbitrary: k acc)
  case Nil
  then show ?case by simp
next
  case (Cons x xs)
  have upt: "[0..<length (x # xs)] = 0 # map Suc [0..<length xs]"
    by (simp add: upt_conv_Cons map_Suc_upt del: upt_Suc)
  show ?case
    unfolding upt by (simp add: Cons.IH filter_map comp_def)
qed

lemma reduce_push:
  "reduce (\<lambda>list x index. if P x then list @ [index] else list) [] xs
     = filter (\<lambda>i. P (xs ! i)) [0..<length xs]"
  by (simp add: reduce_def reduce_from_push)

text \<open>A \<open>reduce\<close> that adds up a value per element.\<close>

lemma reduce_from_sum:
  "reduce_from (\<lambda>acc x index. if P x then acc + g index else acc) k (a::real) xs
     = a + (\<Sum>i<length xs. if P (xs ! i) then g (k + i) else 0)"
proof (induction xs arbitrary: k a)
  case Nil
  then show ?case by simp
next
  case (Cons x xs)
  show ?case
    by (simp add: Cons.IH sum.lessThan_Suc_shift del: sum.lessThan_Suc cong: if_cong)
qed

lemma reduce_from_sum_all:
  "reduce_from (\<lambda>acc x index. acc + h x) k (a::real) xs = a + (\<Sum>i<length xs. h (xs ! i))"
proof (induction xs arbitrary: k a)
  case Nil
  then show ?case by simp
next
  case (Cons x xs)
  show ?case
    by (simp add: Cons.IH sum.lessThan_Suc_shift del: sum.lessThan_Suc)
qed

lemma length_filter_indices:
  "length (filter P xs) = length (filter (\<lambda>i. P (xs ! i)) [0..<length xs])"
proof -
  have "filter P (map ((!) xs) [0..<length xs])
          = map ((!) xs) (filter (P \<circ> (!) xs) [0..<length xs])"
    by (rule filter_map)
  then have "filter P xs = map ((!) xs) (filter (\<lambda>i. P (xs ! i)) [0..<length xs])"
    by (simp only: map_nth comp_def)
  then show ?thesis
    by (metis length_map)
qed

lemma trim_examples:
  "trim [0x00A0, 0x3000, 0xFEFF, 0x2028] = []"
  "trim (utf16 '' alpha  '') = utf16 ''alpha''"
  "trim [0x0085, 0x200B] = [0x0085, 0x200B]"
  by code_simp+

lemma asciiLower_examples:
  "asciiLower (utf16 ''Zebra [A-Z]@'') = utf16 ''zebra [a-z]@''"
  by code_simp

lemma assign_in_range: "i < length xs \<Longrightarrow> assign xs i v = xs[i := Some v]"
  by (simp add: assign_def)

lemma truthy_iff: "truthy c \<longleftrightarrow> c \<noteq> None \<and> c \<noteq> Some []"
  by (simp add: truthy_def split: option.splits)

lemma indexOf_ge: "- 1 \<le> indexOf xs x"
  by (induction xs) (auto simp: Let_def)

lemma indexOf_absent: "x \<notin> set xs \<Longrightarrow> indexOf xs x = - 1"
  by (induction xs) (auto simp: Let_def)

lemma indexOf_present:
  "x \<in> set xs \<Longrightarrow>
   0 \<le> indexOf xs x \<and> indexOf xs x < int (length xs) \<and> xs ! nat (indexOf xs x) = x
   \<and> (\<forall>j < nat (indexOf xs x). xs ! j \<noteq> x)"
proof (induction xs)
  case Nil
  then show ?case by simp
next
  case (Cons y ys)
  show ?case
  proof (cases "y = x")
    case True
    then show ?thesis by simp
  next
    case False
    with Cons.prems have mem: "x \<in> set ys" by simp
    note ih = Cons.IH [OF mem]
    from ih have nonneg: "0 \<le> indexOf ys x" by simp
    then have eq: "indexOf (y # ys) x = indexOf ys x + 1"
      using False by (simp add: Let_def)
    have n: "nat (indexOf ys x + 1) = Suc (nat (indexOf ys x))"
      using nonneg by simp
    show ?thesis
      unfolding eq n using ih False nonneg
      by (auto simp: nth_Cons split: nat.splits)
  qed
qed

section \<open>The view filter as a filter of the catalog indices\<close>

lemma wrongQuestionIndices_filter:
  "wrongQuestionIndices st
     = filter (\<lambda>i. correct_of (userAnswers st ! i) = Some False) [0..<length (userAnswers st)]"
  by (simp add: wrongQuestionIndices_def reduce_push)

lemma wrongQuestionIndices_mem:
  "i \<in> set (wrongQuestionIndices st)
     \<longleftrightarrow> i < length (userAnswers st) \<and> correct_of (userAnswers st ! i) = Some False"
  by (auto simp: wrongQuestionIndices_filter)

lemma searchResultIndices_filter:
  "trim (searchQuery st) \<noteq> [] \<Longrightarrow>
   searchResultIndices toLowerCase st
     = filter
         (\<lambda>i. str_includes (toLowerCase (question (questions st ! i)))
                 (toLowerCase (searchQuery st))
               \<or> str_includes
                    (join (utf16 '' '') (map (\<lambda>opt. toLowerCase (opt_text opt)) (options (questions st ! i))))
                    (toLowerCase (searchQuery st)))
         [0..<length (questions st)]"
  by (simp add: searchResultIndices_def Let_def reduce_push)

lemma sorted_wrongQuestionIndices: "sorted_wrt (<) (wrongQuestionIndices st)"
  by (simp add: wrongQuestionIndices_filter sorted_wrt_filter)

lemma sorted_searchResultIndices: "sorted_wrt (<) (searchResultIndices toLowerCase st)"
proof (cases "trim (searchQuery st) = []")
  case True
  then show ?thesis by (simp add: searchResultIndices_def indices_of_def)
next
  case False
  then show ?thesis by (simp add: searchResultIndices_filter sorted_wrt_filter)
qed

lemma sorted_visibleIndices: "sorted_wrt (<) (visibleIndices toLowerCase st)"
  by (simp add: visibleIndices_def Let_def indices_of_def sorted_wrt_filter
      sorted_wrongQuestionIndices sorted_searchResultIndices)

lemma visibleIndices_wrong_subset:
  "viewMode st = ModeWrong \<Longrightarrow>
   set (visibleIndices toLowerCase st) \<subseteq> set (wrongQuestionIndices st)"
  by (auto simp: visibleIndices_def Let_def)

section \<open>Search\<close>

text \<open>
  C1 (amended): for every catalog and every search query whose trimmed form is not
  empty, \<open>searchResultIndices\<close> contains exactly the indices \<open>i\<close> of the catalog for
  which the lower-case question text, or the lower-case option texts joined by single
  spaces in option order, contains the lower-case query as it was typed, white space
  at its ends included: only the test for an empty query trims it. This holds whatever
  the lower-case mapping is.
\<close>

theorem searchResultIndices_untrimmed:
  "trim (searchQuery st) \<noteq> [] \<Longrightarrow>
   i \<in> set (searchResultIndices toLowerCase st) \<longleftrightarrow>
     i < length (questions st)
     \<and> ((\<exists>ps ss. toLowerCase (question (questions st ! i))
                    = ps @ toLowerCase (searchQuery st) @ ss)
        \<or> (\<exists>ps ss. join (utf16 '' '')
                        (map (\<lambda>opt. toLowerCase (opt_text opt)) (options (questions st ! i)))
                      = ps @ toLowerCase (searchQuery st) @ ss))"
  by (auto simp: searchResultIndices_filter str_includes_iff)

theorem searchResultIndices_untrimmed_witness:
  "trim (searchQuery zebSearch) \<noteq> []
   \<and> 2 \<in> set (searchResultIndices asciiLower zebSearch)
   \<and> 0 \<notin> set (searchResultIndices asciiLower zebSearch)"
proof -
  have q: "trim (searchQuery zebSearch) \<noteq> []"
    by code_simp
  have hit: "2 < length (questions zebSearch)
     \<and> (str_includes (asciiLower (question (questions zebSearch ! 2)))
          (asciiLower (searchQuery zebSearch))
        \<or> str_includes
             (join (utf16 '' '') (map (\<lambda>opt. asciiLower (opt_text opt)) (options (questions zebSearch ! 2))))
             (asciiLower (searchQuery zebSearch)))"
    by code_simp
  have miss: "\<not> (0 < length (questions zebSearch)
     \<and> (str_includes (asciiLower (question (questions zebSearch ! 0)))
          (asciiLower (searchQuery zebSearch))
        \<or> str_includes
             (join (utf16 '' '') (map (\<lambda>opt. asciiLower (opt_text opt)) (options (questions zebSearch ! 0))))
             (asciiLower (searchQuery zebSearch))))"
    by code_simp
  show ?thesis
    using q hit miss
      searchResultIndices_untrimmed [OF q, of 2] searchResultIndices_untrimmed [OF q, of 0]
    unfolding str_includes_iff by blast
qed

text \<open>
  With the trimmed query the statement fails: for the query \<open>alpha\<close> followed by a
  space, the first question's text \<open>Alpha\<close> contains the trimmed query in lower
  case, and yet its index is not among the search results.
\<close>

theorem searchResultIndices_trimmed_counterexample:
  "trim (searchQuery trailingSpaceSearch) \<noteq> []
   \<and> 0 < length (questions trailingSpaceSearch)
   \<and> str_includes (asciiLower (question (questions trailingSpaceSearch ! 0)))
         (asciiLower (trim (searchQuery trailingSpaceSearch)))
   \<and> 0 \<notin> set (searchResultIndices asciiLower trailingSpaceSearch)"
  by code_simp

section \<open>View mode\<close>

lemma wrongCount_eq_length: "wrongCount (summary st) = length (wrongQuestionIndices st)"
  using length_filter_indices [of "\<lambda>item. correct_of item = Some False" "userAnswers st"]
  by (simp add: summary_def wrongQuestionIndices_filter)

lemma toggleDisabled_iff:
  "toggleDisabled st \<longleftrightarrow> viewMode st = ModeAll \<and> wrongQuestionIndices st = []"
  by (simp add: toggleDisabled_def wrongCount_eq_length)

text \<open>
  C2: the view mode is switched by the button of \<open>handleToggleView\<close>. A click in
  mode ALL with no wrong entry in the ledger (no entry with \<open>correct = false\<close>)
  changes nothing; a click in mode ALL with a wrong entry switches to WRONG_ONLY, and
  a click in mode WRONG_ONLY always switches back to ALL. Nothing but the mode changes.
\<close>

theorem clickToggleView_guarded:
  "clickToggleView st
     = (if viewMode st = ModeAll
           \<and> \<not> (\<exists>a \<in> set (userAnswers st). correct_of a = Some False)
        then st
        else st\<lparr>viewMode := if viewMode st = ModeAll then ModeWrong else ModeAll\<rparr>)"
proof -
  have "wrongQuestionIndices st = []
          \<longleftrightarrow> \<not> (\<exists>a \<in> set (userAnswers st). correct_of a = Some False)"
    by (auto simp: wrongQuestionIndices_filter filter_empty_conv all_set_conv_all_nth)
  then show ?thesis
    by (cases "viewMode st")
      (simp_all add: handleToggleView_def clickToggleView_def toggleDisabled_iff)
qed

theorem clickToggleView_guarded_witness:
  "viewMode loadedState = ModeAll
   \<and> clickToggleView loadedState = loadedState
   \<and> viewMode wrongAnswerState = ModeAll
   \<and> viewMode (clickToggleView wrongAnswerState) = ModeWrong
   \<and> viewMode wrongViewState = ModeWrong
   \<and> viewMode (clickToggleView wrongViewState) = ModeAll"
proof -
  have a: "viewMode loadedState = ModeAll
           \<and> \<not> (\<exists>a \<in> set (userAnswers loadedState). correct_of a = Some False)"
    by code_simp
  have b: "viewMode wrongAnswerState = ModeAll
           \<and> (\<exists>a \<in> set (userAnswers wrongAnswerState). correct_of a = Some False)"
    by code_simp
  have c: "viewMode wrongViewState = ModeWrong"
    by code_simp
  show ?thesis
    using a b c clickToggleView_guarded [of loadedState]
      clickToggleView_guarded [of wrongAnswerState] clickToggleView_guarded [of wrongViewState]
    by simp
qed

section \<open>Ledger migration\<close>

text \<open>
  C3: \<open>loadAnswersFromStorage\<close> always returns exactly \<open>size\<close> entries. With nothing
  stored (or nothing that parses) these are fresh records \<open>{choice: null, correct: null}\<close>;
  a stored array of length \<open>size\<close> is returned as it is; a stored array of length \<open>n\<close>
  with \<open>size = n + k\<close> is returned followed by \<open>k\<close> fresh records; of a longer stored
  array \<open>kept @ dropped\<close> with \<open>size = length kept\<close> exactly \<open>kept\<close> is returned.
\<close>

theorem loadAnswersFromStorage_migrate:
  "length (loadAnswersFromStorage saved sz) = sz
   \<and> loadAnswersFromStorage Absent sz
       = replicate sz (Some \<lparr>choice = None, correct = None\<rparr>)
   \<and> loadAnswersFromStorage Unparsable sz
       = replicate sz (Some \<lparr>choice = None, correct = None\<rparr>)
   \<and> loadAnswersFromStorage (Parsed parsed) (length parsed) = parsed
   \<and> loadAnswersFromStorage (Parsed parsed) (length parsed + k)
       = parsed @ replicate k (Some \<lparr>choice = None, correct = None\<rparr>)
   \<and> loadAnswersFromStorage (Parsed (kept @ dropped)) (length kept) = kept"
  by (cases saved) (auto simp: getInitialAnswers_def)

section \<open>Submitting\<close>

lemma selectedChoice_in_range:
  "selectedChoice st = Some c \<Longrightarrow> currentIndex st < length (userAnswers st)"
  by (auto simp: selectedChoice_def currentAnswer_def entry_def choice_of_def split: if_splits)

text \<open>
  The labels of a catalog are not empty (\<open>convertQuiz.cjs\<close> writes the letters
  \<open>A\<close> to \<open>Z\<close>), and a choice is the label of an option (\<open>handleSelect\<close> is called
  with \<open>option.label\<close>), so a choice is null or a non-empty string. The next two
  statements are about such choices.
\<close>

text \<open>
  C4: for every index in the bounds of the catalog, \<open>handleSubmit\<close> on an entry whose
  choice is null only sets the hint (the validation error) and leaves the whole ledger
  unchanged, and on an entry with a choice (a non-empty label) it leaves the status
  message as it was: the validation error is raised if and only if no choice is
  selected, and then no ledger entry is changed.
\<close>

theorem handleSubmit_validation:
  assumes "currentIndex st < length (questions st)" and "selectedChoice st \<noteq> Some []"
  shows "(selectedChoice st = None \<longrightarrow>
            handleSubmit st = st\<lparr>statusMessage := Some SelectOptionFirst\<rparr>
            \<and> userAnswers (handleSubmit st) = userAnswers st)
         \<and> (selectedChoice st \<noteq> None \<longrightarrow>
              statusMessage (handleSubmit st) = statusMessage st)"
  using assms
  by (auto simp: handleSubmit_def currentQuestion_def item_at_def truthy_iff)

theorem handleSubmit_validation_witness:
  "currentIndex loadedState < length (questions loadedState)
   \<and> selectedChoice loadedState = None
   \<and> handleSubmit loadedState = loadedState\<lparr>statusMessage := Some SelectOptionFirst\<rparr>
   \<and> userAnswers (handleSubmit loadedState) = userAnswers loadedState
   \<and> currentIndex selectedState < length (questions selectedState)
   \<and> selectedChoice selectedState = Some (utf16 ''A'')
   \<and> statusMessage (handleSubmit selectedState) = statusMessage selectedState"
proof -
  have a: "currentIndex loadedState < length (questions loadedState)"
    by code_simp
  have b: "selectedChoice loadedState = None"
    by code_simp
  have c: "currentIndex selectedState < length (questions selectedState)"
    by code_simp
  have d: "selectedChoice selectedState = Some (utf16 ''A'')"
    by code_simp
  have e: "selectedChoice loadedState \<noteq> Some []"
    using b by simp
  have f: "selectedChoice selectedState \<noteq> Some []"
    using d by (simp add: utf16_def)
  show ?thesis
    using a b c d handleSubmit_validation [OF a e] handleSubmit_validation [OF c f]
    by simp
qed

text \<open>
  C5: for every index in the bounds of the catalog whose entry has a choice (a
  non-empty label), \<open>handleSubmit\<close> sets the entry's \<open>correct\<close> to the truth value of ``the choice
  equals the label of the question's answer'', keeps its choice and changes nothing
  else; submitting a second time gives the same state.
\<close>

theorem handleSubmit_graded:
  assumes "currentIndex st < length (questions st)"
    and "selectedChoice st = Some c" and "c \<noteq> []"
  shows "handleSubmit st
           = st\<lparr>userAnswers := (userAnswers st)
                  [currentIndex st :=
                     Some \<lparr>choice = Some c,
                           correct = Some (c = ans_label (answer (questions st ! currentIndex st)))\<rparr>]\<rparr>
         \<and> handleSubmit (handleSubmit st) = handleSubmit st"
proof -
  let ?i = "currentIndex st"
  let ?r = "\<lparr>choice = Some c, correct = Some (c = ans_label (answer (questions st ! ?i)))\<rparr>"
  let ?st' = "st\<lparr>userAnswers := (userAnswers st)[?i := Some ?r]\<rparr>"
  have range: "?i < length (userAnswers st)"
    using assms(2) by (rule selectedChoice_in_range)
  have first: "handleSubmit st = ?st'"
    using assms range
    by (simp add: handleSubmit_def currentQuestion_def item_at_def truthy_iff assign_def)
  have sel: "selectedChoice ?st' = Some c"
    using range by (simp add: selectedChoice_def currentAnswer_def entry_def choice_of_def)
  have "handleSubmit ?st' = ?st'"
    using assms(1,3) range sel
    by (simp add: handleSubmit_def currentQuestion_def item_at_def truthy_iff assign_def)
  with first show ?thesis by simp
qed

theorem handleSubmit_graded_witness:
  "currentIndex selectedState < length (questions selectedState)
   \<and> selectedChoice selectedState = Some (utf16 ''A'')
   \<and> userAnswers (handleSubmit selectedState) ! 0
       = Some \<lparr>choice = Some (utf16 ''A''), correct = Some True\<rparr>
   \<and> handleSubmit (handleSubmit selectedState) = handleSubmit selectedState"
proof -
  have a: "currentIndex selectedState < length (questions selectedState)"
    by code_simp
  have b: "selectedChoice selectedState = Some (utf16 ''A'')"
    by code_simp
  have c: "utf16 ''A'' \<noteq> []"
    by (simp add: utf16_def)
  have d: "currentIndex selectedState = 0
           \<and> ans_label (answer (questions selectedState ! 0)) = utf16 ''A''
           \<and> length (userAnswers selectedState) = 3"
    by code_simp
  note graded = handleSubmit_graded [OF a b c]
  have e: "userAnswers (handleSubmit selectedState) ! 0
             = Some \<lparr>choice = Some (utf16 ''A''), correct = Some True\<rparr>"
    using d by (simp add: graded [THEN conjunct1])
  show ?thesis
    using a b e graded [THEN conjunct2] by blast
qed

section \<open>Frame of the ledger mutations\<close>

lemma userAnswers_handleSubmit:
  "userAnswers (handleSubmit st) = userAnswers st
   \<or> (\<exists>v. userAnswers (handleSubmit st) = assign (userAnswers st) (currentIndex st) v)"
  by (auto simp: handleSubmit_def split: option.splits)

text \<open>
  C6: applied at an index in the bounds of the ledger, select, submit and reset keep the
  length of the ledger and every entry at another index. Select sets the entry's choice
  to the given label and keeps its \<open>correct\<close>; reset makes the entry
  \<open>{choice: null, correct: null}\<close> whatever it was.
\<close>

theorem mutations_touch_one_entry:
  assumes "currentIndex st < length (userAnswers st)"
  shows "userAnswers (handleSelect x st)
           = (userAnswers st)
               [currentIndex st :=
                  Some \<lparr>choice = Some x, correct = correct_of (userAnswers st ! currentIndex st)\<rparr>]
         \<and> userAnswers (handleResetQuestion st)
           = (userAnswers st)[currentIndex st := Some \<lparr>choice = None, correct = None\<rparr>]
         \<and> (\<forall>st' \<in> {handleSelect x st, handleSubmit st, handleResetQuestion st}.
              length (userAnswers st') = length (userAnswers st)
              \<and> (\<forall>j. j \<noteq> currentIndex st \<longrightarrow> userAnswers st' ! j = userAnswers st ! j))"
proof -
  have "length (userAnswers (handleSubmit st)) = length (userAnswers st)
        \<and> (\<forall>j. j \<noteq> currentIndex st \<longrightarrow> userAnswers (handleSubmit st) ! j = userAnswers st ! j)"
    using userAnswers_handleSubmit [of st] assms by (auto simp: assign_in_range)
  then show ?thesis
    using assms by (simp add: handleSelect_def handleResetQuestion_def assign_in_range entry_def)
qed

theorem mutations_touch_one_entry_witness:
  "currentIndex selectedState < length (userAnswers selectedState)
   \<and> userAnswers (handleSelect (utf16 ''B'') selectedState) ! 0
       = Some \<lparr>choice = Some (utf16 ''B''), correct = None\<rparr>
   \<and> userAnswers (handleResetQuestion selectedState) ! 0
       = Some \<lparr>choice = None, correct = None\<rparr>
   \<and> userAnswers (handleSubmit selectedState) ! 1 = userAnswers selectedState ! 1
   \<and> length (userAnswers (handleSubmit selectedState)) = 3"
proof -
  have a: "currentIndex selectedState < length (userAnswers selectedState)"
    by code_simp
  have d: "currentIndex selectedState = 0
           \<and> correct_of (userAnswers selectedState ! 0) = None
           \<and> length (userAnswers selectedState) = 3"
    by code_simp
  show ?thesis
    using a d mutations_touch_one_entry [OF a, of "utf16 ''B''"]
    by simp
qed

section \<open>Summary\<close>

lemma totalScore_sum:
  "totalScore (summary st)
     = (\<Sum>i<length (userAnswers st).
          if correct_of (userAnswers st ! i) = Some True then score_at (questions st) i else 0)"
  by (simp add: summary_def reduce_def reduce_from_sum cong: if_cong)

lemma fullScore_sum:
  "fullScore (summary st) = (\<Sum>i<length (questions st). score_or_0 (questions st ! i))"
  by (simp add: summary_def reduce_def reduce_from_sum_all)

lemma score_at_nonneg:
  "\<forall>q \<in> set qs. 0 \<le> score_or_0 q \<Longrightarrow> 0 \<le> score_at qs i"
  by (simp add: score_at_def item_at_def)

lemma sum_score_at_le:
  assumes nonneg: "\<forall>q \<in> set qs. 0 \<le> score_or_0 q"
  shows "(\<Sum>i<n. score_at qs i) \<le> (\<Sum>i<length qs. score_or_0 (qs ! i))"
proof -
  have "(\<Sum>i<n. score_at qs i) \<le> (\<Sum>i<max n (length qs). score_at qs i)"
    by (rule sum_mono2) (auto simp: score_at_nonneg [OF nonneg])
  also have "\<dots> = (\<Sum>i<length qs. score_at qs i)"
    by (rule sum.mono_neutral_right) (auto simp: score_at_def item_at_def)
  also have "\<dots> = (\<Sum>i<length qs. score_or_0 (qs ! i))"
    by (rule sum.cong) (auto simp: score_at_def item_at_def)
  finally show ?thesis .
qed

lemma answered_iff:
  "(item \<noteq> None \<and> correct_of item \<noteq> None)
     \<longleftrightarrow> (correct_of item = Some True \<or> correct_of item = Some False)"
  by (cases "correct_of item") (auto simp: correct_of_def split: option.splits)

lemma count_split:
  "length (filter (\<lambda>item. item \<noteq> None \<and> correct_of item \<noteq> None) xs)
     = length (filter (\<lambda>item. correct_of item = Some True) xs)
       + length (filter (\<lambda>item. correct_of item = Some False) xs)"
  unfolding answered_iff by (induction xs) auto

text \<open>
  C7: for every catalog and every ledger the summary satisfies
  \<open>answeredCount = correctCount + wrongCount\<close>, and when every question's score, null
  counted as 0, is non-negative, \<open>totalScore \<le> fullScore\<close>.
\<close>

theorem summary_consistent:
  "answeredCount (summary st) = correctCount (summary st) + wrongCount (summary st)
   \<and> ((\<forall>q \<in> set (questions st). 0 \<le> score_or_0 q) \<longrightarrow>
        totalScore (summary st) \<le> fullScore (summary st))"
proof (intro conjI impI)
  show "answeredCount (summary st) = correctCount (summary st) + wrongCount (summary st)"
    using count_split [of "userAnswers st"] by (simp add: summary_def)
next
  assume nonneg: "\<forall>q \<in> set (questions st). 0 \<le> score_or_0 q"
  have "totalScore (summary st) \<le> (\<Sum>i<length (userAnswers st). score_at (questions st) i)"
    unfolding totalScore_sum
    by (rule sum_mono) (simp add: score_at_nonneg [OF nonneg])
  also have "\<dots> \<le> fullScore (summary st)"
    unfolding fullScore_sum by (rule sum_score_at_le [OF nonneg])
  finally show "totalScore (summary st) \<le> fullScore (summary st)" .
qed

theorem summary_consistent_witness:
  "list_all (\<lambda>q. 0 \<le> score_or_0 q) (questions gradedState)
   \<and> answeredCount (summary gradedState) = 1
   \<and> correctCount (summary gradedState) = 1
   \<and> wrongCount (summary gradedState) = 0
   \<and> totalScore (summary gradedState) \<le> fullScore (summary gradedState)"
proof -
  have qs: "questions gradedState = exampleCatalog"
    by (simp add: gradedState_def selectedState_def loadedState_def step_def autoCorrect_def
        handleSubmit_def handleSelect_def fetchQuestions_def initialState_def
        split: option.splits)
  have a: "\<forall>q \<in> set (questions gradedState). 0 \<le> score_or_0 q"
    unfolding qs by (simp add: exampleCatalog_def score_or_0_def)
  have b: "correctCount (summary gradedState) = 1 \<and> wrongCount (summary gradedState) = 0"
    by code_simp
  show ?thesis
    using a b summary_consistent [of gradedState]
    by (simp add: list_all_iff)
qed

section \<open>Visible indices\<close>

text \<open>
  C8: for every catalog, ledger and search query, every index of \<open>visibleIndices\<close> in
  the wrong-only mode is an index of the ledger whose entry has \<open>correct = false\<close>, and
  in every mode \<open>visibleIndices\<close> is strictly ascending, hence without duplicates.
\<close>

theorem visibleIndices_wrong_ascending:
  "(viewMode st = ModeWrong \<longrightarrow>
      (\<forall>i \<in> set (visibleIndices toLowerCase st).
         i < length (userAnswers st)
         \<and> (\<exists>r. userAnswers st ! i = Some r \<and> correct r = Some False)))
   \<and> sorted_wrt (<) (visibleIndices toLowerCase st)
   \<and> distinct (visibleIndices toLowerCase st)"
proof (intro conjI impI ballI)
  fix i
  assume "viewMode st = ModeWrong" and "i \<in> set (visibleIndices toLowerCase st)"
  then have w: "i \<in> set (wrongQuestionIndices st)"
    using visibleIndices_wrong_subset by blast
  then show "i < length (userAnswers st)"
    by (simp add: wrongQuestionIndices_mem)
  from w show "\<exists>r. userAnswers st ! i = Some r \<and> correct r = Some False"
    by (auto simp: wrongQuestionIndices_mem correct_of_def split: option.splits)
next
  show "sorted_wrt (<) (visibleIndices toLowerCase st)"
    by (rule sorted_visibleIndices)
  then show "distinct (visibleIndices toLowerCase st)"
    by (simp add: strict_sorted_iff)
qed

theorem visibleIndices_wrong_ascending_witness:
  "viewMode wrongViewState = ModeWrong
   \<and> 1 \<in> set (visibleIndices asciiLower wrongViewState)
   \<and> (\<exists>r. userAnswers wrongViewState ! 1 = Some r \<and> correct r = Some False)
   \<and> sorted_wrt (<) (visibleIndices asciiLower wrongViewState)"
proof -
  have a: "viewMode wrongViewState = ModeWrong"
    by code_simp
  have b: "1 \<in> set (visibleIndices asciiLower wrongViewState)"
    by code_simp
  show ?thesis
    using a b visibleIndices_wrong_ascending [of wrongViewState]
    by blast
qed

section \<open>Navigation\<close>

text \<open>
  C9: the position is the index of the cursor in \<open>visibleIndices\<close>, or \<open>-1\<close> when the
  cursor is not in it. The previous target is the visible index before the position when
  the position is positive, and absent otherwise; the next target is the visible index
  after the position when the position is valid and not the last, and absent otherwise.
  \<open>handlePrevious\<close> and \<open>handleNext\<close> change nothing when their target is absent.
\<close>

theorem navigation_targets:
  "(currentIndex st \<notin> set (visibleIndices toLowerCase st) \<longrightarrow> currentVisiblePosition toLowerCase st = - 1)
   \<and> (currentIndex st \<in> set (visibleIndices toLowerCase st) \<longrightarrow>
        0 \<le> currentVisiblePosition toLowerCase st
        \<and> currentVisiblePosition toLowerCase st < int (length (visibleIndices toLowerCase st))
        \<and> visibleIndices toLowerCase st ! nat (currentVisiblePosition toLowerCase st) = currentIndex st)
   \<and> previousIndex toLowerCase st
       = (if currentVisiblePosition toLowerCase st > 0
          then Some (visibleIndices toLowerCase st ! nat (currentVisiblePosition toLowerCase st - 1)) else None)
   \<and> nextIndex toLowerCase st
       = (if 0 \<le> currentVisiblePosition toLowerCase st
             \<and> currentVisiblePosition toLowerCase st + 1 < int (length (visibleIndices toLowerCase st))
          then Some (visibleIndices toLowerCase st ! nat (currentVisiblePosition toLowerCase st + 1)) else None)
   \<and> (previousIndex toLowerCase st = None \<longrightarrow> handlePrevious toLowerCase st = st)
   \<and> (nextIndex toLowerCase st = None \<longrightarrow> handleNext toLowerCase st = st)"
proof -
  have ge: "- 1 \<le> currentVisiblePosition toLowerCase st"
    by (simp add: currentVisiblePosition_def indexOf_ge)
  have nxt: "nextIndex toLowerCase st
       = (if 0 \<le> currentVisiblePosition toLowerCase st
             \<and> currentVisiblePosition toLowerCase st + 1 < int (length (visibleIndices toLowerCase st))
          then Some (visibleIndices toLowerCase st ! nat (currentVisiblePosition toLowerCase st + 1)) else None)"
    using ge by (auto simp: nextIndex_def)
  show ?thesis
    using indexOf_present [of "currentIndex st" "visibleIndices toLowerCase st"]
    by (simp add: nxt currentVisiblePosition_def indexOf_absent previousIndex_def
        handlePrevious_def handleNext_def)
qed

theorem navigation_targets_witness:
  "currentIndex loadedState \<in> set (visibleIndices asciiLower loadedState)
   \<and> currentVisiblePosition asciiLower loadedState = 0
   \<and> previousIndex asciiLower loadedState = None
   \<and> handlePrevious asciiLower loadedState = loadedState
   \<and> nextIndex asciiLower loadedState = Some 1
   \<and> currentIndex zebSearch \<notin> set (visibleIndices asciiLower zebSearch)
   \<and> currentVisiblePosition asciiLower zebSearch = - 1
   \<and> nextIndex asciiLower zebSearch = None
   \<and> handleNext asciiLower zebSearch = zebSearch"
proof -
  have a: "currentIndex loadedState \<in> set (visibleIndices asciiLower loadedState)"
    by code_simp
  have b: "currentVisiblePosition asciiLower loadedState = 0 \<and> visibleIndices asciiLower loadedState = [0, 1, 2]"
    by code_simp
  have c: "currentIndex zebSearch \<notin> set (visibleIndices asciiLower zebSearch)"
    by code_simp
  have d: "visibleIndices asciiLower zebSearch = [2]"
    by code_simp
  show ?thesis
    using a b c d navigation_targets [of loadedState] navigation_targets [of zebSearch]
    by simp
qed

section \<open>The cursor in the wrong-only view\<close>

lemma wrongQuestionIndices_cursor [simp]:
  "wrongQuestionIndices (st\<lparr>currentIndex := i\<rparr>) = wrongQuestionIndices st"
  by (simp add: wrongQuestionIndices_def)

lemma autoCorrect_cursor:
  "viewMode (autoCorrect st) = viewMode st
   \<and> wrongQuestionIndices (autoCorrect st) = wrongQuestionIndices st
   \<and> currentIndex (autoCorrect st)
       = (if viewMode st = ModeWrong \<and> wrongQuestionIndices st \<noteq> []
             \<and> currentIndex st \<notin> set (wrongQuestionIndices st)
          then wrongQuestionIndices st ! 0 else currentIndex st)"
  by (simp add: autoCorrect_def)

lemma autoCorrect_invariant:
  "viewMode (autoCorrect st) = ModeWrong \<Longrightarrow> wrongQuestionIndices (autoCorrect st) \<noteq> [] \<Longrightarrow>
   currentIndex (autoCorrect st) \<in> set (wrongQuestionIndices (autoCorrect st))"
  by (auto simp: autoCorrect_cursor)

lemma autoCorrect_idem: "autoCorrect (autoCorrect st) = autoCorrect st"
  by (auto simp: autoCorrect_def)

text \<open>
  C10: the correction of the cursor acts after every event, not only when the mode is
  switched. In every settled state, if the mode is wrong-only and there is a wrong
  question, then the cursor is on a wrong question; the effect has nothing left to do
  there; and after any further event, a jump or a change of the ledger included, the
  cursor is the first wrong index whenever the handler left it outside the wrong
  indices.
\<close>

theorem settled_cursor_in_wrong:
  assumes "settled toLowerCase st"
  shows "(viewMode st = ModeWrong \<and> wrongQuestionIndices st \<noteq> [] \<longrightarrow>
            currentIndex st \<in> set (wrongQuestionIndices st))
         \<and> autoCorrect st = st
         \<and> currentIndex (step toLowerCase e st)
             = (if viewMode (handle toLowerCase e st) = ModeWrong \<and> wrongQuestionIndices (handle toLowerCase e st) \<noteq> []
                   \<and> currentIndex (handle toLowerCase e st) \<notin> set (wrongQuestionIndices (handle toLowerCase e st))
                then wrongQuestionIndices (handle toLowerCase e st) ! 0 else currentIndex (handle toLowerCase e st))"
  using assms
proof (induction rule: settled.induct)
  case settled_initial
  then show ?case
    by (simp add: step_def autoCorrect_cursor) (simp add: initialState_def autoCorrect_def)
next
  case (settled_step st e')
  show ?case
    using autoCorrect_invariant [of "handle toLowerCase e' st"]
    by (simp add: step_def autoCorrect_idem
        autoCorrect_cursor [of "handle toLowerCase e (autoCorrect (handle toLowerCase e' st))"])
qed

theorem settled_cursor_in_wrong_witness:
  "settled asciiLower (step asciiLower (Jump 0) wrongViewState)
   \<and> viewMode (step asciiLower (Jump 0) wrongViewState) = ModeWrong
   \<and> wrongQuestionIndices (step asciiLower (Jump 0) wrongViewState) = [1]
   \<and> currentIndex (step asciiLower (Jump 0) wrongViewState) = 1"
proof -
  have a: "settled asciiLower (step asciiLower (Jump 0) wrongViewState)"
    unfolding wrongViewState_def wrongAnswerState_def loadedState_def
    by (intro settled.intros)
  have b: "viewMode (step asciiLower (Jump 0) wrongViewState) = ModeWrong
           \<and> wrongQuestionIndices (step asciiLower (Jump 0) wrongViewState) = [1]"
    by code_simp
  show ?thesis
    using a b settled_cursor_in_wrong [OF a]
    by simp
qed

end
